theory Spec2Isabelle
  imports Main
begin

section \<open>Text\<close>

text \<open>
  Python's \<open>str\<close> is a sequence of code points; here a \<open>char\<close> stands for one code
  point below 256.  \<open>isspace\<close> is the whitespace test that \<open>str.strip()\<close> without
  arguments applies: the code points 9 to 13, 28 to 32, 133 and 160 (the ones above 255
  are not representable).
\<close>

definition isspace :: "char \<Rightarrow> bool" where
  "isspace c =
     (let n = (of_char c :: nat)
      in (9 \<le> n \<and> n \<le> 13) \<or> (28 \<le> n \<and> n \<le> 32) \<or> n = 133 \<or> n = 160)"

definition lstrip :: "string \<Rightarrow> string" where
  "lstrip s = dropWhile isspace s"

definition rstrip :: "string \<Rightarrow> string" where
  "rstrip s = rev (dropWhile isspace (rev s))"

definition strip :: "string \<Rightarrow> string" where
  "strip s = rstrip (lstrip s)"

text \<open>Truth value of a Python string: the empty string is false, every other one true.\<close>

definition truthy :: "string \<Rightarrow> bool" where
  "truthy s = (s \<noteq> [])"

section \<open>The parsed page\<close>

text \<open>
  \<open>BeautifulSoup(response.content, 'html.parser')\<close> yields a tree of tags and text
  nodes.  A tag carries its name, the tokens of its \<open>class\<close> attribute and its children.
  Fetching and parsing are outside the model; the tree is the input.
\<close>

datatype node =
    NavigableString string
  | Tag string "string list" "node list"

fun tag_name :: "node \<Rightarrow> string option" where
  "tag_name (NavigableString s) = None"
| "tag_name (Tag n cs kids) = Some n"

fun tag_classes :: "node \<Rightarrow> string list" where
  "tag_classes (NavigableString s) = []"
| "tag_classes (Tag n cs kids) = cs"

text \<open>All nodes below a node, in document order (the node itself is not included).\<close>

fun descendants :: "node \<Rightarrow> node list" where
  "descendants (NavigableString s) = []"
| "descendants (Tag n cs kids) = concat (map (\<lambda>k. k # descendants k) kids)"

text \<open>\<open>soup.find_all(name, class_=c)\<close>: the tags below \<open>soup\<close> with that name whose class
  tokens include \<open>c\<close>, in document order.\<close>

definition find_all :: "node \<Rightarrow> string \<Rightarrow> string \<Rightarrow> node list" where
  "find_all soup name c =
     filter (\<lambda>e. tag_name e = Some name \<and> c \<in> set (tag_classes e)) (descendants soup)"

text \<open>\<open>soup.find(name)\<close>: the first tag below \<open>soup\<close> with that name, or \<open>None\<close>.\<close>

definition find_tag :: "node \<Rightarrow> string \<Rightarrow> node option" where
  "find_tag soup name =
     (case filter (\<lambda>e. tag_name e = Some name) (descendants soup) of
        [] \<Rightarrow> None
      | e # _ \<Rightarrow> Some e)"

text \<open>The text nodes below (or at) a node, in document order.\<close>

fun all_strings :: "node \<Rightarrow> string list" where
  "all_strings (NavigableString s) = [s]"
| "all_strings (Tag n cs kids) = concat (map all_strings kids)"

text \<open>\<open>e.get_text(strip=True)\<close>: every text node below \<open>e\<close> is stripped, the empty results
  are left out, and the rest is joined with the empty separator.\<close>

definition get_text_strip :: "node \<Rightarrow> string" where
  "get_text_strip e = concat (filter (\<lambda>s. s \<noteq> []) (map strip (all_strings e)))"

text \<open>
  The trimmed text of an element in the words of the specification: the whole text
  content of the element (\<open>e.get_text()\<close>, the text nodes joined as they are) with the
  whitespace at its two ends removed.  The source does not compute it; it is here to be
  compared with \<open>get_text_strip\<close>.
\<close>

definition trimmed_text :: "node \<Rightarrow> string" where
  "trimmed_text e = strip (concat (all_strings e))"

section \<open>Extraction\<close>

record DuaLine =
  arabic :: string
  translation :: string

text \<open>The constructor \<open>DuaLine.__init__\<close> strips both arguments.\<close>

definition mk_DuaLine :: "string \<Rightarrow> string \<Rightarrow> DuaLine" where
  "mk_DuaLine a t = \<lparr> arabic = strip a, translation = strip t \<rparr>"

text \<open>The loop \<open>for i in range(min(len(arabic_divs), len(translation_divs)))\<close>, over the
  list of indices still to visit, with \<open>dua_lines\<close> as the accumulator.\<close>

fun pair_loop :: "node list \<Rightarrow> node list \<Rightarrow> nat list \<Rightarrow> DuaLine list \<Rightarrow> DuaLine list" where
  "pair_loop arabic_divs translation_divs [] dua_lines = dua_lines"
| "pair_loop arabic_divs translation_divs (i # is) dua_lines =
     (let arabic_text = get_text_strip (arabic_divs ! i);
          translation_text = get_text_strip (translation_divs ! i)
      in if truthy arabic_text \<and> truthy translation_text
         then pair_loop arabic_divs translation_divs is
                (dua_lines @ [mk_DuaLine arabic_text translation_text])
         else pair_loop arabic_divs translation_divs is dua_lines)"

text \<open>The body of \<open>scrape_dua\<close> once the page is parsed.  A tag is always true in
  Python (also an empty one), so \<open>if title_elem\<close> only tests for \<open>None\<close>.\<close>

definition scrape_soup :: "node \<Rightarrow> DuaLine list \<times> string" where
  "scrape_soup soup =
     (let arabic_divs = find_all soup ''div'' ''Ara'';
          translation_divs = find_all soup ''div'' ''Tra'';
          dua_lines = pair_loop arabic_divs translation_divs
                        [0 ..< min (length arabic_divs) (length translation_divs)] [];
          title = (case find_tag soup ''ptitle'' of
                     Some title_elem \<Rightarrow> get_text_strip title_elem
                   | None \<Rightarrow> ''Dua'')
      in (dua_lines, title))"

text \<open>\<open>scrape_dua\<close> itself: a failure of the request is logged and raised again; a page
  that was fetched and parsed always gives a result.\<close>

datatype error = RequestException | ValueError

definition scrape_dua :: "error + node \<Rightarrow> error + (DuaLine list \<times> string)" where
  "scrape_dua response =
     (case response of
        Inl e \<Rightarrow> Inl e
      | Inr soup \<Rightarrow> Inr (scrape_soup soup))"

section \<open>Presentations\<close>

text \<open>
  The part of a \<open>python-pptx\<close> presentation that the builders write.  Lengths are in
  EMU: \<open>Inches(n / 10)\<close> is \<open>Inches_tenths n\<close> and \<open>Pt(n)\<close> is \<open>Pt n\<close>.  A property that
  the builders leave alone is \<open>None\<close>.
\<close>

definition Inches_tenths :: "nat \<Rightarrow> nat" where
  "Inches_tenths n = n * 91440"

definition Pt :: "nat \<Rightarrow> nat" where
  "Pt n = n * 12700"

datatype PP_ALIGN = LEFT | CENTER | RIGHT | JUSTIFY

record para =
  p_text :: string
  p_alignment :: "PP_ALIGN option"
  font_size :: "nat option"
  font_bold :: "bool option"
  font_color :: "(nat \<times> nat \<times> nat) option"
  font_name :: "string option"
  space_after :: "nat option"

record textbox =
  box_left :: nat
  box_top :: nat
  box_width :: nat
  box_height :: nat
  word_wrap :: "bool option"
  vertical_anchor :: "nat option"
  paragraphs :: "para list"

record autoshape =
  shape_type :: nat
  shape_left :: nat
  shape_top :: nat
  shape_width :: nat
  shape_height :: nat
  fill_rgb :: "nat \<times> nat \<times> nat"
  fill_transparency_percent :: nat
  line_fill_background :: bool

datatype shape =
    Picture string nat nat nat nat
  | AutoShape autoshape
  | TextBox textbox

type_synonym slide = "shape list"

record presentation =
  slide_width :: nat
  slide_height :: nat
  slides :: "slide list"

text \<open>A new text frame holds one paragraph without text or formatting.\<close>

definition empty_paragraph :: para where
  "empty_paragraph =
     \<lparr> p_text = [], p_alignment = None, font_size = None, font_bold = None,
       font_color = None, font_name = None, space_after = None \<rparr>"

text \<open>\<open>slide.shapes.add_textbox(left, top, width, height)\<close>.\<close>

definition add_textbox :: "nat \<Rightarrow> nat \<Rightarrow> nat \<Rightarrow> nat \<Rightarrow> textbox" where
  "add_textbox l t w h =
     \<lparr> box_left = l, box_top = t, box_width = w, box_height = h,
       word_wrap = None, vertical_anchor = None, paragraphs = [empty_paragraph] \<rparr>"

text \<open>
  The background picture is added when \<open>bg_image_path and os.path.exists(bg_image_path)\<close>
  holds: the path is given (not \<open>None\<close>), is not the empty string, and names an existing
  file.  The state of the file system is the predicate \<open>exists\<close>.
\<close>

definition add_background ::
  "(string \<Rightarrow> bool) \<Rightarrow> string option \<Rightarrow> nat \<Rightarrow> nat \<Rightarrow> shape list" where
  "add_background exists bg_image_path w h =
     (case bg_image_path of
        None \<Rightarrow> []
      | Some path \<Rightarrow> if truthy path \<and> exists path then [Picture path 0 0 w h] else [])"

text \<open>The black rectangle over the whole slide.\<close>

definition add_overlay :: "nat \<Rightarrow> nat \<Rightarrow> shape" where
  "add_overlay w h =
     AutoShape \<lparr> shape_type = 1, shape_left = 0, shape_top = 0, shape_width = w,
       shape_height = h, fill_rgb = (0, 0, 0), fill_transparency_percent = 30,
       line_fill_background = True \<rparr>"

subsection \<open>One line per slide\<close>

definition style_arabic_single :: "DuaLine \<Rightarrow> para \<Rightarrow> para" where
  "style_arabic_single line p =
     p\<lparr> p_text := arabic line, p_alignment := Some RIGHT, font_size := Some (Pt 28),
        font_bold := Some True, font_color := Some (255, 255, 255),
        font_name := Some ''Arial'' \<rparr>"

definition style_english_single :: "DuaLine \<Rightarrow> para \<Rightarrow> para" where
  "style_english_single line p =
     p\<lparr> p_text := translation line, p_alignment := Some LEFT, font_size := Some (Pt 24),
        font_color := Some (255, 255, 255), font_name := Some ''Arial'' \<rparr>"

text \<open>The body of the loop \<open>for line in dua_lines\<close>: the shapes of the new slide.\<close>

definition single_line_slide ::
  "(string \<Rightarrow> bool) \<Rightarrow> string option \<Rightarrow> nat \<Rightarrow> nat \<Rightarrow> DuaLine \<Rightarrow> slide" where
  "single_line_slide exists bg_image_path w h line =
     (let arabic_box = add_textbox (Inches_tenths 52) (Inches_tenths 25)
                         (Inches_tenths 45) (Inches_tenths 25);
          arabic_frame = arabic_box\<lparr> word_wrap := Some True, vertical_anchor := Some 1 \<rparr>;
          arabic_done = arabic_frame\<lparr> paragraphs :=
            (paragraphs arabic_frame)[0 := style_arabic_single line (paragraphs arabic_frame ! 0)] \<rparr>;
          english_box = add_textbox (Inches_tenths 3) (Inches_tenths 25)
                          (Inches_tenths 45) (Inches_tenths 25);
          english_frame = english_box\<lparr> word_wrap := Some True, vertical_anchor := Some 1 \<rparr>;
          english_done = english_frame\<lparr> paragraphs :=
            (paragraphs english_frame)[0 := style_english_single line (paragraphs english_frame ! 0)] \<rparr>
      in add_background exists bg_image_path w h
         @ [add_overlay w h, TextBox arabic_done, TextBox english_done])"

definition create_pptx_single_line ::
  "(string \<Rightarrow> bool) \<Rightarrow> DuaLine list \<Rightarrow> string \<Rightarrow> string option \<Rightarrow> presentation" where
  "create_pptx_single_line exists dua_lines title bg_image_path =
     (let w = Inches_tenths 100; h = Inches_tenths 75
      in \<lparr> slide_width = w, slide_height = h,
           slides = map (single_line_slide exists bg_image_path w h) dua_lines \<rparr>)"

subsection \<open>Three lines per slide\<close>

text \<open>\<open>range(start, stop, step)\<close> for a positive step, as the list of its values.\<close>

function range_step :: "nat \<Rightarrow> nat \<Rightarrow> nat \<Rightarrow> nat list" where
  "range_step i stop step =
     (if 0 < step \<and> i < stop then i # range_step (i + step) stop step else [])"
  by pat_completeness auto
termination
  by (relation "measure (\<lambda>(i, stop, step). stop - i)") auto

declare range_step.simps [simp del]

text \<open>The slice \<open>xs[i:j]\<close> for indices that are not negative.\<close>

definition slice :: "'a list \<Rightarrow> nat \<Rightarrow> nat \<Rightarrow> 'a list" where
  "slice xs i j = take (j - i) (drop i xs)"

definition style_arabic_three :: "DuaLine \<Rightarrow> para \<Rightarrow> para" where
  "style_arabic_three line p =
     p\<lparr> p_text := arabic line, p_alignment := Some RIGHT, font_size := Some (Pt 22),
        font_bold := Some True, font_color := Some (255, 255, 255),
        font_name := Some ''Arial'', space_after := Some (Pt 20) \<rparr>"

definition style_english_three :: "DuaLine \<Rightarrow> para \<Rightarrow> para" where
  "style_english_three line p =
     p\<lparr> p_text := translation line, p_alignment := Some LEFT, font_size := Some (Pt 18),
        font_color := Some (255, 255, 255), font_name := Some ''Arial'',
        space_after := Some (Pt 20) \<rparr>"

text \<open>
  The loop \<open>for idx, line in enumerate(current_lines)\<close> over the paragraphs of a frame:
  from the second line on a paragraph is appended first, then paragraph \<open>idx\<close> is
  written.
\<close>

fun paragraph_loop ::
  "(DuaLine \<Rightarrow> para \<Rightarrow> para) \<Rightarrow> (nat \<times> DuaLine) list \<Rightarrow> para list
     \<Rightarrow> para list" where
  "paragraph_loop style [] ps = ps"
| "paragraph_loop style ((idx, line) # rest) ps =
     (let ps1 = (if idx > 0 then ps @ [empty_paragraph] else ps)
      in paragraph_loop style rest (ps1[idx := style line (ps1 ! idx)]))"

text \<open>The body of the loop \<open>for i in range(0, len(dua_lines), 3)\<close>.\<close>

definition three_lines_slide ::
  "(string \<Rightarrow> bool) \<Rightarrow> string option \<Rightarrow> nat \<Rightarrow> nat \<Rightarrow> DuaLine list \<Rightarrow> nat \<Rightarrow> slide" where
  "three_lines_slide exists bg_image_path w h dua_lines i =
     (let current_lines = slice dua_lines i (i + 3);
          arabic_box = add_textbox (Inches_tenths 52) (Inches_tenths 10)
                         (Inches_tenths 45) (Inches_tenths 55);
          arabic_frame = arabic_box\<lparr> word_wrap := Some True, vertical_anchor := Some 1 \<rparr>;
          arabic_done = arabic_frame\<lparr> paragraphs :=
            paragraph_loop style_arabic_three (enumerate 0 current_lines)
              (paragraphs arabic_frame) \<rparr>;
          english_box = add_textbox (Inches_tenths 3) (Inches_tenths 10)
                          (Inches_tenths 45) (Inches_tenths 55);
          english_frame = english_box\<lparr> word_wrap := Some True, vertical_anchor := Some 1 \<rparr>;
          english_done = english_frame\<lparr> paragraphs :=
            paragraph_loop style_english_three (enumerate 0 current_lines)
              (paragraphs english_frame) \<rparr>
      in add_background exists bg_image_path w h
         @ [add_overlay w h, TextBox arabic_done, TextBox english_done])"

definition create_pptx_three_lines ::
  "(string \<Rightarrow> bool) \<Rightarrow> DuaLine list \<Rightarrow> string \<Rightarrow> string option \<Rightarrow> presentation" where
  "create_pptx_three_lines exists dua_lines title bg_image_path =
     (let w = Inches_tenths 100; h = Inches_tenths 75
      in \<lparr> slide_width = w, slide_height = h,
           slides = map (three_lines_slide exists bg_image_path w h dua_lines)
                      (range_step 0 (length dua_lines) 3) \<rparr>)"

subsection \<open>Grouping\<close>

text \<open>
  The grouping that \<open>create_pptx_three_lines\<close> does with \<open>range(0, len(dua_lines), 3)\<close>
  and \<open>dua_lines[i:i+3]\<close>, with the group size 3 of the source as the parameter \<open>k\<close>.
  \<open>range\<close> raises \<open>ValueError\<close> for the step 0.
\<close>

definition paginate :: "'a list \<Rightarrow> nat \<Rightarrow> error + 'a list list" where
  "paginate lines k =
     (if k = 0 then Inl ValueError
      else Inr (map (\<lambda>i. slice lines i (i + k)) (range_step 0 (length lines) k)))"

text \<open>The text boxes of a slide, in the order they were added.\<close>

fun text_boxes :: "slide \<Rightarrow> textbox list" where
  "text_boxes [] = []"
| "text_boxes (TextBox b # rest) = b # text_boxes rest"
| "text_boxes (_ # rest) = text_boxes rest"

section \<open>File names\<close>

text \<open>
  \<open>s.replace(old, new)\<close>: the occurrences of \<open>old\<close> are replaced from left to right
  without overlap; for the empty \<open>old\<close>, \<open>new\<close> goes before every character and at the
  end.
\<close>

function replace :: "string \<Rightarrow> string \<Rightarrow> string \<Rightarrow> string" where
  "replace s old new =
     (if old = [] then new @ concat (map (\<lambda>c. c # new) s)
      else if s = [] then []
      else if take (length old) s = old then new @ replace (drop (length old) s) old new
      else hd s # replace (tl s) old new)"
  by pat_completeness auto
termination
  by (relation "measure (\<lambda>(s, old, new). length s)") auto

declare replace.simps [simp del]

text \<open>The names under which \<open>receive_image\<close> sends the two presentations.\<close>

definition single_line_filename :: "string \<Rightarrow> string" where
  "single_line_filename title = replace title '' '' ''_'' @ ''_single_line.pptx''"

definition three_lines_filename :: "string \<Rightarrow> string" where
  "three_lines_filename title = replace title '' '' ''_'' @ ''_three_lines.pptx''"

section \<open>Reading a slide back\<close>

text \<open>
  The lines that a slide shows, read back from its two text boxes: the texts of the
  paragraphs of the first box (Arabic) paired with those of the second (English).
\<close>

definition slide_lines :: "slide \<Rightarrow> DuaLine list" where
  "slide_lines s =
     (case text_boxes s of
        [a, e] \<Rightarrow> map2 (\<lambda>pa pe. \<lparr> arabic = p_text pa, translation = p_text pe \<rparr>)
                    (paragraphs a) (paragraphs e)
      | _ \<Rightarrow> [])"

section \<open>Example inputs\<close>

text \<open>A page with four primary and two translation elements, the second translation
  blank; a page whose title element is blank; a page whose primary element holds a
  nested tag; a page whose title element holds a nested tag; seven lines.\<close>

definition scenario_D :: node where
  "scenario_D =
     Tag ''[document]'' []
       [ Tag ''ptitle'' [] [NavigableString '' Dua Kumayl ''],
         Tag ''div'' [''Ara''] [NavigableString '' a0 ''],
         Tag ''div'' [''Tra''] [NavigableString ''t0''],
         Tag ''div'' [''Ara''] [NavigableString ''a1''],
         Tag ''div'' [''Tra''] [NavigableString ''  ''],
         Tag ''div'' [''Ara''] [NavigableString ''a2''],
         Tag ''div'' [''Ara''] [NavigableString ''a3''] ]"

definition blank_title_page :: node where
  "blank_title_page =
     Tag ''[document]'' []
       [ Tag ''ptitle'' [] [NavigableString ''  ''],
         Tag ''div'' [''Ara''] [NavigableString ''a0''],
         Tag ''div'' [''Tra''] [NavigableString ''t0''] ]"

definition nested_div_page :: node where
  "nested_div_page =
     Tag ''[document]'' []
       [ Tag ''div'' [''Ara'']
           [NavigableString ''In the '', Tag ''b'' [] [NavigableString ''name'']],
         Tag ''div'' [''Tra''] [NavigableString ''t0''] ]"

definition nested_title_page :: node where
  "nested_title_page =
     Tag ''[document]'' []
       [ Tag ''ptitle'' []
           [NavigableString '' Dua '', Tag ''b'' [] [NavigableString '' Kumayl '']],
         Tag ''div'' [''Ara''] [NavigableString ''a0''],
         Tag ''div'' [''Tra''] [NavigableString ''t0''] ]"

definition seven_lines :: "DuaLine list" where
  "seven_lines = map (\<lambda>s. \<lparr> arabic = CHR ''a'' # s, translation = CHR ''t'' # s \<rparr>)
                   [''1'', ''2'', ''3'', ''4'', ''5'', ''6'', ''7'']"

section \<open>Properties of text\<close>

lemma rstrip_Nil_iff: "rstrip s = [] \<longleftrightarrow> (\<forall>c \<in> set s. isspace c)"
  by (simp add: rstrip_def dropWhile_eq_Nil_conv)

lemma strip_Nil_iff: "strip s = [] \<longleftrightarrow> (\<forall>c \<in> set s. isspace c)"
proof
  assume "strip s = []"
  then have a: "\<forall>c \<in> set (dropWhile isspace s). isspace c"
    by (simp add: strip_def rstrip_Nil_iff lstrip_def)
  show "\<forall>c \<in> set s. isspace c"
  proof (cases "dropWhile isspace s")
    case Nil
    then show ?thesis by (simp add: dropWhile_eq_Nil_conv)
  next
    case (Cons c cs)
    then have "\<not> isspace c" using hd_dropWhile[of isspace s] by auto
    with a Cons show ?thesis by simp
  qed
next
  assume "\<forall>c \<in> set s. isspace c"
  then have "dropWhile isspace s = []" by simp
  then show "strip s = []"
    unfolding strip_def rstrip_def lstrip_def by (simp del: dropWhile_eq_Nil_conv)
qed

lemma strip_fixed:
  assumes "s \<noteq> []" "\<not> isspace (hd s)" "\<not> isspace (last s)"
  shows "strip s = s"
proof -
  from assms have l: "lstrip s = s" by (cases s) (simp_all add: lstrip_def)
  from assms have "rev s \<noteq> []" "\<not> isspace (hd (rev s))" by (simp_all add: hd_rev)
  then have "dropWhile isspace (rev s) = rev s" by (cases "rev s") simp_all
  then have "rstrip s = s" by (simp add: rstrip_def)
  with l show ?thesis by (simp add: strip_def)
qed

lemma last_dropWhile: "dropWhile P xs \<noteq> [] \<Longrightarrow> last (dropWhile P xs) = last xs"
  by (metis last_appendR takeWhile_dropWhile_id)

lemma strip_ends:
  assumes "strip s \<noteq> []"
  shows "\<not> isspace (hd (strip s)) \<and> \<not> isspace (last (strip s))"
proof -
  let ?l = "dropWhile isspace s"
  let ?r = "dropWhile isspace (rev ?l)"
  have eq: "strip s = rev ?r" by (simp add: strip_def rstrip_def lstrip_def)
  with assms have r: "?r \<noteq> []" by simp
  then have hr: "\<not> isspace (hd ?r)" using hd_dropWhile[of isspace "rev ?l"] by simp
  then have last_ok: "\<not> isspace (last (strip s))" using r by (simp add: eq last_rev)
  have l: "?l \<noteq> []"
  proof
    assume "?l = []"
    with r show False by simp
  qed
  then have hl: "\<not> isspace (hd ?l)" using hd_dropWhile[of isspace s] by simp
  have "hd (strip s) = last ?r" using r by (simp add: eq hd_rev)
  also have "\<dots> = last (rev ?l)" using r by (rule last_dropWhile)
  also have "\<dots> = hd ?l" using l by (simp add: last_rev)
  finally have "\<not> isspace (hd (strip s))" using hl by simp
  with last_ok show ?thesis by simp
qed

lemma strip_Nil [simp]: "strip [] = []"
  by (simp add: strip_def rstrip_def lstrip_def)

lemma strip_idem: "strip (strip s) = strip s"
proof (cases "strip s = []")
  case True
  then show ?thesis by simp
next
  case False
  then show ?thesis using strip_ends[OF False] by (intro strip_fixed) simp_all
qed

lemma hd_concat_nonempty:
  "xs \<noteq> [] \<Longrightarrow> \<forall>x \<in> set xs. x \<noteq> [] \<Longrightarrow> hd (concat xs) = hd (hd xs)"
  by (cases xs) simp_all

lemma last_concat_nonempty:
  "xs \<noteq> [] \<Longrightarrow> \<forall>x \<in> set xs. x \<noteq> [] \<Longrightarrow> last (concat xs) = last (last xs)"
  by (induction xs rule: rev_induct) simp_all

lemma get_text_strip_ends:
  assumes "get_text_strip e \<noteq> []"
  shows "\<not> isspace (hd (get_text_strip e)) \<and> \<not> isspace (last (get_text_strip e))"
proof -
  let ?ps = "filter (\<lambda>s. s \<noteq> []) (map strip (all_strings e))"
  have g: "get_text_strip e = concat ?ps" by (simp add: get_text_strip_def)
  have ne: "?ps \<noteq> []"
  proof
    assume "?ps = []"
    then have "concat ?ps = []" by (simp only: concat.simps)
    with g assms show False by simp
  qed
  have all: "\<forall>x \<in> set ?ps. x \<noteq> []" by simp
  have pieces: "\<forall>x \<in> set ?ps. \<not> isspace (hd x) \<and> \<not> isspace (last x)"
    using strip_ends by auto
  from ne have "hd ?ps \<in> set ?ps" by (rule hd_in_set)
  moreover from ne have "last ?ps \<in> set ?ps" by (rule last_in_set)
  ultimately have "\<not> isspace (hd (hd ?ps))" "\<not> isspace (last (last ?ps))"
  using pieces by blast+
  then show ?thesis
    unfolding g hd_concat_nonempty[OF ne all] last_concat_nonempty[OF ne all] by simp
qed

lemma strip_get_text_strip: "strip (get_text_strip e) = get_text_strip e"
proof (cases "get_text_strip e = []")
  case True
  then show ?thesis by simp
next
  case False
  then show ?thesis using get_text_strip_ends[OF False] by (intro strip_fixed) simp_all
qed

lemma get_text_strip_single:
  "get_text_strip (Tag n cs [NavigableString s]) = strip s"
  by (simp add: get_text_strip_def)

lemma get_text_strip_Nil_iff:
  "get_text_strip e = [] \<longleftrightarrow> (\<forall>s \<in> set (all_strings e). \<forall>c \<in> set s. isspace c)"
proof -
  have "get_text_strip e = [] \<longleftrightarrow> (\<forall>s \<in> set (all_strings e). strip s = [])"
    unfolding get_text_strip_def concat_eq_Nil_conv by auto
  then show ?thesis by (simp add: strip_Nil_iff)
qed

lemma trimmed_text_Nil_iff:
  "trimmed_text e = [] \<longleftrightarrow> get_text_strip e = []"
  by (simp add: trimmed_text_def strip_Nil_iff get_text_strip_Nil_iff)

lemma get_text_strip_one_string:
  assumes "length (all_strings e) = 1"
  shows "get_text_strip e = trimmed_text e"
proof -
  from assms obtain s where s: "all_strings e = [s]"
    by (cases "all_strings e") simp_all
  show ?thesis
    by (cases "strip s = []") (simp_all add: get_text_strip_def trimmed_text_def s)
qed

section \<open>Properties of extraction\<close>

lemma pair_loop_eq:
  "pair_loop A T is acc =
     acc @ map (\<lambda>i. \<lparr> arabic = get_text_strip (A ! i), translation = get_text_strip (T ! i) \<rparr>)
             (filter (\<lambda>i. get_text_strip (A ! i) \<noteq> [] \<and> get_text_strip (T ! i) \<noteq> []) is)"
  by (induction "is" arbitrary: acc)
     (simp_all add: Let_def truthy_def mk_DuaLine_def strip_get_text_strip)

lemma find_tag_None_iff:
  "find_tag soup n = None \<longleftrightarrow> (\<forall>e \<in> set (descendants soup). tag_name e \<noteq> Some n)"
proof -
  let ?fs = "filter (\<lambda>e. tag_name e = Some n) (descendants soup)"
  have "find_tag soup n = None \<longleftrightarrow> ?fs = []"
    unfolding find_tag_def by (cases ?fs) (simp_all only: list.case option.simps list.simps simp_thms)
  then show ?thesis by (simp add: filter_empty_conv)
qed

lemma find_tag_Some:
  "find_tag soup n = Some e \<Longrightarrow> e \<in> set (descendants soup) \<and> tag_name e = Some n"
proof -
  assume "find_tag soup n = Some e"
  then obtain rest where "filter (\<lambda>e. tag_name e = Some n) (descendants soup) = e # rest"
    unfolding find_tag_def by (cases "filter (\<lambda>e. tag_name e = Some n) (descendants soup)") simp_all
  then have "e \<in> set (filter (\<lambda>e. tag_name e = Some n) (descendants soup))" by simp
  then show ?thesis by simp
qed

section \<open>Properties of grouping\<close>

lemma concat_range_step:
  "0 < k \<Longrightarrow> concat (map (\<lambda>i. slice xs i (i + k)) (range_step s (length xs) k)) = drop s xs"
proof (induction s "length xs" k rule: range_step.induct)
  case (1 i step)
  show ?case
  proof (cases "i < length xs")
    case True
    have "take step (drop i xs) @ drop (i + step) xs = drop i xs"
      by (metis add.commute append_take_drop_id drop_drop)
    with True 1 show ?thesis
      by (subst range_step.simps) (simp add: slice_def)
  next
    case False
    then show ?thesis by (subst range_step.simps) simp
  qed
qed

lemma range_step_bound:
  "i \<in> set (range_step s n k) \<Longrightarrow> i < n"
proof (induction s n k rule: range_step.induct)
  case (1 s n k)
  show ?case
  proof (cases "0 < k \<and> s < n")
    case True
    with "1.prems" have "i = s \<or> i \<in> set (range_step (s + k) n k)"
      by (subst (asm) range_step.simps) simp
    with True "1.IH"[OF True] show ?thesis by auto
  next
    case False
    with "1.prems" show ?thesis by (subst (asm) range_step.simps) simp
  qed
qed

lemma range_step_next:
  "Suc j < length (range_step s n k) \<Longrightarrow> range_step s n k ! j + k < n"
proof (induction s n k arbitrary: j rule: range_step.induct)
  case (1 s n k)
  show ?case
  proof (cases "0 < k \<and> s < n")
    case True
    then have eq: "range_step s n k = s # range_step (s + k) n k"
      by (subst range_step.simps) simp
    show ?thesis
    proof (cases j)
      case 0
      with "1.prems" eq have "range_step (s + k) n k \<noteq> []" by auto
      then have "s + k < n"
        by (subst (asm) range_step.simps) (auto split: if_splits)
      with 0 eq show ?thesis by simp
    next
      case (Suc j')
      with "1.prems" eq have "Suc j' < length (range_step (s + k) n k)" by simp
      from "1.IH"[OF True this] Suc eq show ?thesis by simp
    qed
  next
    case False
    then have "range_step s n k = []" by (subst range_step.simps) simp
    with "1.prems" show ?thesis by simp
  qed
qed

lemma paginate_concat: "1 \<le> k \<Longrightarrow> \<exists>gs. paginate L k = Inr gs \<and> concat gs = L"
  using concat_range_step[of k L 0] by (simp add: paginate_def)

lemma paginate_sizes:
  "1 \<le> k \<Longrightarrow> \<exists>gs. paginate L k = Inr gs \<and> (\<forall>g \<in> set gs. 1 \<le> length g \<and> length g \<le> k)
     \<and> (\<forall>j. Suc j < length gs \<longrightarrow> length (gs ! j) = k)"
proof -
  assume k: "1 \<le> k"
  let ?is = "range_step 0 (length L) k"
  let ?gs = "map (\<lambda>i. slice L i (i + k)) ?is"
  have p: "paginate L k = Inr ?gs" using k by (simp add: paginate_def)
  have a: "\<forall>g \<in> set ?gs. 1 \<le> length g \<and> length g \<le> k"
    using k by (auto simp: slice_def dest: range_step_bound)
  have b: "\<forall>j. Suc j < length ?gs \<longrightarrow> length (?gs ! j) = k"
  proof (intro allI impI)
    fix j assume j: "Suc j < length ?gs"
    then have "?is ! j + k < length L" using range_step_next[of j 0 "length L" k] by simp
    with j show "length (?gs ! j) = k" by (simp add: slice_def)
  qed
  from p a b show ?thesis by blast
qed

lemma paginate_empty: "1 \<le> k \<Longrightarrow> paginate [] k = Inr []"
  by (simp add: paginate_def range_step.simps)

lemma replace_char:
  "replace s [a] [b] = map (\<lambda>c. if c = a then b else c) s"
proof (induction s)
  case Nil
  then show ?case by (subst replace.simps) simp
next
  case (Cons c cs)
  show ?case
  proof (cases "c = a")
    case True
    with Cons show ?thesis by (subst replace.simps) simp
  next
    case False
    with Cons show ?thesis by (subst replace.simps) simp
  qed
qed

lemma range_step_one: "range_step s n (Suc 0) = [s ..< n]"
proof (induction s n "Suc 0" rule: range_step.induct)
  case (1 i stop)
  show ?case
  proof (cases "i < stop")
    case True
    with 1 show ?thesis by (subst range_step.simps) (simp add: upt_conv_Cons)
  next
    case False
    then show ?thesis by (subst range_step.simps) simp
  qed
qed

lemma paginate_one: "paginate L 1 = Inr (map (\<lambda>l. [l]) L)"
proof -
  have "map (\<lambda>i. slice L i (i + 1)) [0 ..< length L] = map (\<lambda>l. [l]) L"
    by (rule nth_equalityI) (simp_all add: slice_def take_Suc_conv_app_nth)
  then show ?thesis by (simp add: paginate_def range_step_one)
qed

section \<open>Properties of the slides\<close>

lemma paragraph_loop_from:
  "0 < n \<Longrightarrow> length ps = n \<Longrightarrow>
   paragraph_loop style (enumerate n ls) ps = ps @ map (\<lambda>l. style l empty_paragraph) ls"
proof (induction ls arbitrary: n ps)
  case Nil
  then show ?case by simp
next
  case (Cons l ls)
  have "paragraph_loop style (enumerate n (l # ls)) ps
        = paragraph_loop style (enumerate (Suc n) ls) (ps @ [style l empty_paragraph])"
    using Cons.prems by (simp add: Let_def nth_append list_update_append)
  also have "\<dots> = (ps @ [style l empty_paragraph]) @ map (\<lambda>l. style l empty_paragraph) ls"
    using Cons.prems by (intro Cons.IH) simp_all
  finally show ?case by simp
qed

lemma paragraph_loop_frame:
  "paragraph_loop style (enumerate 0 ls) [empty_paragraph]
   = (if ls = [] then [empty_paragraph] else map (\<lambda>l. style l empty_paragraph) ls)"
proof (cases ls)
  case Nil
  then show ?thesis by simp
next
  case (Cons l rest)
  have "paragraph_loop style (enumerate 0 (l # rest)) [empty_paragraph]
        = paragraph_loop style (enumerate (Suc 0) rest) [style l empty_paragraph]"
    by (simp add: Let_def)
  also have "\<dots> = [style l empty_paragraph] @ map (\<lambda>l. style l empty_paragraph) rest"
    by (intro paragraph_loop_from) simp_all
  finally show ?thesis using Cons by simp
qed

lemma text_boxes_background [simp]:
  "text_boxes (add_background ex bg w h @ rest) = text_boxes rest"
  by (simp add: add_background_def split: option.splits)

lemma text_boxes_single:
  "text_boxes (single_line_slide ex bg w h line) =
    [ \<lparr> box_left = Inches_tenths 52, box_top = Inches_tenths 25, box_width = Inches_tenths 45,
        box_height = Inches_tenths 25, word_wrap = Some True, vertical_anchor = Some 1,
        paragraphs = [style_arabic_single line empty_paragraph] \<rparr>,
      \<lparr> box_left = Inches_tenths 3, box_top = Inches_tenths 25, box_width = Inches_tenths 45,
        box_height = Inches_tenths 25, word_wrap = Some True, vertical_anchor = Some 1,
        paragraphs = [style_english_single line empty_paragraph] \<rparr> ]"
  by (simp add: single_line_slide_def Let_def add_textbox_def add_overlay_def)

lemma text_boxes_three:
  "i < length L \<Longrightarrow> text_boxes (three_lines_slide ex bg w h L i) =
    [ \<lparr> box_left = Inches_tenths 52, box_top = Inches_tenths 10, box_width = Inches_tenths 45,
        box_height = Inches_tenths 55, word_wrap = Some True, vertical_anchor = Some 1,
        paragraphs = map (\<lambda>l. style_arabic_three l empty_paragraph) (slice L i (i + 3)) \<rparr>,
      \<lparr> box_left = Inches_tenths 3, box_top = Inches_tenths 10, box_width = Inches_tenths 45,
        box_height = Inches_tenths 55, word_wrap = Some True, vertical_anchor = Some 1,
        paragraphs = map (\<lambda>l. style_english_three l empty_paragraph) (slice L i (i + 3)) \<rparr> ]"
proof -
  assume "i < length L"
  then have ne: "slice L i (i + 3) \<noteq> []" by (simp add: slice_def)
  show ?thesis
    by (simp add: three_lines_slide_def Let_def add_textbox_def add_overlay_def
        paragraph_loop_frame ne)
qed

section \<open>Properties of the pipeline\<close>

lemma scrape_dua_returns: "scrape_dua (Inr soup) = Inr (scrape_soup soup)"
  by (simp add: scrape_dua_def)

lemma scrape_soup_lines:
  "fst (scrape_soup soup) =
     map (\<lambda>i. \<lparr> arabic = get_text_strip (find_all soup ''div'' ''Ara'' ! i),
                translation = get_text_strip (find_all soup ''div'' ''Tra'' ! i) \<rparr>)
       (filter (\<lambda>i. get_text_strip (find_all soup ''div'' ''Ara'' ! i) \<noteq> []
                  \<and> get_text_strip (find_all soup ''div'' ''Tra'' ! i) \<noteq> [])
          [0 ..< min (length (find_all soup ''div'' ''Ara''))
                     (length (find_all soup ''div'' ''Tra''))])"
  by (simp add: scrape_soup_def Let_def pair_loop_eq)

lemma scrape_soup_title:
  "snd (scrape_soup soup) =
     (case find_tag soup ''ptitle'' of Some e \<Rightarrow> get_text_strip e | None \<Rightarrow> ''Dua'')"
  by (simp add: scrape_soup_def Let_def)

lemma scenario_D_eval:
  "scrape_dua (Inr scenario_D) = Inr ([\<lparr> arabic = ''a0'', translation = ''t0'' \<rparr>], ''Dua Kumayl'')"
  by code_simp

lemma blank_eval:
  "scrape_dua (Inr blank_title_page) = Inr ([\<lparr> arabic = ''a0'', translation = ''t0'' \<rparr>], [])"
  by code_simp

lemma slide_lines_single: "slide_lines (single_line_slide ex bg w h line) = [line]"
  by (simp add: slide_lines_def text_boxes_single style_arabic_single_def
      style_english_single_def)

lemma read_back_lines:
  "map2 (\<lambda>pa pe. \<lparr> arabic = p_text pa, translation = p_text pe \<rparr>)
     (map (\<lambda>l. style_arabic_three l empty_paragraph) g)
     (map (\<lambda>l. style_english_three l empty_paragraph) g) = g"
  by (induction g) (simp_all add: style_arabic_three_def style_english_three_def)

lemma slide_lines_three:
  assumes "i < length L"
  shows "slide_lines (three_lines_slide ex bg w h L i) = slice L i (i + 3)"
proof -
  let ?g = "slice L i (i + 3)"
  show ?thesis
    by (simp add: slide_lines_def text_boxes_three[OF assms] read_back_lines)
qed

lemma three_lines_groups:
  "paginate L 3 = Inr (map slide_lines (slides (create_pptx_three_lines ex L t bg)))"
proof -
  have "map (\<lambda>i. slide_lines (three_lines_slide ex bg (Inches_tenths 100) (Inches_tenths 75) L i))
          (range_step 0 (length L) 3)
        = map (\<lambda>i. slice L i (i + 3)) (range_step 0 (length L) 3)"
    by (rule map_cong[OF refl]) (simp add: slide_lines_three range_step_bound)
  then show ?thesis
    by (simp add: paginate_def create_pptx_three_lines_def Let_def comp_def)
qed

lemma single_line_groups:
  "paginate L 1 = Inr (map slide_lines (slides (create_pptx_single_line ex L t bg)))"
  using paginate_one[of L]
  by (simp add: create_pptx_single_line_def Let_def comp_def slide_lines_single)

lemma seven_lines_groups:
  "paginate seven_lines 3 =
     Inr [ [seven_lines ! 0, seven_lines ! 1, seven_lines ! 2],
           [seven_lines ! 3, seven_lines ! 4, seven_lines ! 5],
           [seven_lines ! 6] ]"
  by code_simp

lemma scrape_soup_lines_non_empty:
  assumes "l \<in> set (fst (scrape_soup soup))"
  shows "strip (arabic l) \<noteq> [] \<and> strip (translation l) \<noteq> []"
proof -
  from assms obtain i
    where "l = \<lparr> arabic = get_text_strip (find_all soup ''div'' ''Ara'' ! i),
                 translation = get_text_strip (find_all soup ''div'' ''Tra'' ! i) \<rparr>"
      and "get_text_strip (find_all soup ''div'' ''Ara'' ! i) \<noteq> []"
      and "get_text_strip (find_all soup ''div'' ''Tra'' ! i) \<noteq> []"
    unfolding scrape_soup_lines by auto
  then show ?thesis by (simp add: strip_get_text_strip)
qed

lemma slide_lines_subset_three:
  "s \<in> set (slides (create_pptx_three_lines ex L t bg)) \<Longrightarrow> set (slide_lines s) \<subseteq> set L"
proof -
  assume s: "s \<in> set (slides (create_pptx_three_lines ex L t bg))"
  obtain gs where g: "paginate L 3 = Inr gs" "concat gs = L"
    using paginate_concat[of 3 L] by auto
  from g(1) three_lines_groups[of L ex t bg]
  have "gs = map slide_lines (slides (create_pptx_three_lines ex L t bg))" by simp
  with s have "slide_lines s \<in> set gs" by simp
  then have "set (slide_lines s) \<subseteq> set (concat gs)" by auto
  with g(2) show ?thesis by simp
qed

lemma slide_lines_subset_single:
  "s \<in> set (slides (create_pptx_single_line ex L t bg)) \<Longrightarrow> set (slide_lines s) \<subseteq> set L"
  by (auto simp: create_pptx_single_line_def Let_def slide_lines_single)

lemma single_slide_layout:
  "\<exists>a e. text_boxes (single_line_slide ex bg w h line) = [a, e] \<and>
     map p_text (paragraphs a) = [arabic line] \<and>
     map p_alignment (paragraphs a) = [Some RIGHT] \<and>
     map font_bold (paragraphs a) = [Some True] \<and>
     map font_size (paragraphs a) = [Some (Pt 28)] \<and>
     map p_text (paragraphs e) = [translation line] \<and>
     map p_alignment (paragraphs e) = [Some LEFT] \<and>
     map font_bold (paragraphs e) = [None] \<and>
     map font_size (paragraphs e) = [Some (Pt 24)]"
  by (simp add: text_boxes_single style_arabic_single_def style_english_single_def
      empty_paragraph_def)

lemma three_slide_layout:
  assumes "i < length L"
  shows "\<exists>a e. text_boxes (three_lines_slide ex bg w h L i) = [a, e] \<and>
     map p_text (paragraphs a) = map arabic (slice L i (i + 3)) \<and>
     map p_alignment (paragraphs a) = replicate (length (slice L i (i + 3))) (Some RIGHT) \<and>
     map font_bold (paragraphs a) = replicate (length (slice L i (i + 3))) (Some True) \<and>
     map font_size (paragraphs a) = replicate (length (slice L i (i + 3))) (Some (Pt 22)) \<and>
     map p_text (paragraphs e) = map translation (slice L i (i + 3)) \<and>
     map p_alignment (paragraphs e) = replicate (length (slice L i (i + 3))) (Some LEFT) \<and>
     map font_bold (paragraphs e) = replicate (length (slice L i (i + 3))) None \<and>
     map font_size (paragraphs e) = replicate (length (slice L i (i + 3))) (Some (Pt 18))"
  by (simp add: text_boxes_three[OF assms] style_arabic_three_def style_english_three_def
      empty_paragraph_def comp_def map_replicate_const)

lemma blank_title_found:
  "find_tag blank_title_page ''ptitle'' = Some (Tag ''ptitle'' [] [NavigableString ''  ''])"
  by code_simp

lemma blank_title_spaces:
  "\<forall>s \<in> set (all_strings (Tag ''ptitle'' [] [NavigableString ''  ''])). \<forall>c \<in> set s. isspace c"
  by (simp add: isspace_def)

lemma scenario_D_title_element:
  "filter (\<lambda>e. tag_name e = Some ''ptitle'') (descendants scenario_D)
   = [Tag ''ptitle'' [] [NavigableString '' Dua Kumayl '']]"
  by code_simp

lemma nested_div_eval:
  "scrape_dua (Inr nested_div_page)
     = Inr ([\<lparr> arabic = ''In thename'', translation = ''t0'' \<rparr>], ''Dua'')"
  by code_simp

lemma nested_div_element:
  "find_all nested_div_page ''div'' ''Ara'' ! 0
     = Tag ''div'' [''Ara''] [NavigableString ''In the '', Tag ''b'' [] [NavigableString ''name'']]"
  by code_simp

lemma nested_div_trimmed:
  "trimmed_text (Tag ''div'' [''Ara'']
      [NavigableString ''In the '', Tag ''b'' [] [NavigableString ''name'']]) = ''In the name''"
  by code_simp

lemma scenario_D_kept:
  "filter (\<lambda>i. trimmed_text (find_all scenario_D ''div'' ''Ara'' ! i) \<noteq> []
               \<and> trimmed_text (find_all scenario_D ''div'' ''Tra'' ! i) \<noteq> [])
     [0 ..< min (length (find_all scenario_D ''div'' ''Ara''))
                (length (find_all scenario_D ''div'' ''Tra''))] = [0]"
  by code_simp

lemma scenario_D_one_string:
  "length (all_strings (find_all scenario_D ''div'' ''Ara'' ! 0)) = 1"
  by code_simp

lemma nested_title_eval:
  "scrape_dua (Inr nested_title_page)
     = Inr ([\<lparr> arabic = ''a0'', translation = ''t0'' \<rparr>], ''DuaKumayl'')"
  by code_simp

lemma nested_title_element:
  "find_tag nested_title_page ''ptitle''
     = Some (Tag ''ptitle'' [] [NavigableString '' Dua '', Tag ''b'' [] [NavigableString '' Kumayl '']])"
  by code_simp

lemma nested_title_trimmed:
  "trimmed_text (Tag ''ptitle'' []
      [NavigableString '' Dua '', Tag ''b'' [] [NavigableString '' Kumayl '']]) = ''Dua  Kumayl''"
  by code_simp

lemma scenario_D_title_one_string:
  "length (all_strings (Tag ''ptitle'' [] [NavigableString '' Dua Kumayl ''])) = 1"
  by simp

section \<open>The claims\<close>

text \<open>
  Claim C1 as the specification words it says that the primary text of a surviving pair
  is the trimmed text of its primary element.  On a page whose primary element is
  \<open><div class="Ara">In the <b>name</b></div>\<close> the line holds \<open>In thename\<close>, while the
  trimmed text of the element is \<open>In the name\<close>: \<open>get_text(strip=True)\<close> strips every
  text node on its own before joining them.
\<close>

theorem pairing_alignment_counterexample:
  "scrape_dua (Inr nested_div_page)
     = Inr ([\<lparr> arabic = ''In thename'', translation = ''t0'' \<rparr>], ''Dua'') \<and>
   trimmed_text (find_all nested_div_page ''div'' ''Ara'' ! 0) = ''In the name'' \<and>
   arabic (fst (scrape_soup nested_div_page) ! 0)
     \<noteq> trimmed_text (find_all nested_div_page ''div'' ''Ara'' ! 0)"
proof -
  have a: "trimmed_text (find_all nested_div_page ''div'' ''Ara'' ! 0) = ''In the name''"
    by (simp only: nested_div_element nested_div_trimmed)
  have "scrape_soup nested_div_page
          = ([\<lparr> arabic = ''In thename'', translation = ''t0'' \<rparr>], ''Dua'')"
    using nested_div_eval by (simp add: scrape_dua_def)
  then have b: "arabic (fst (scrape_soup nested_div_page) ! 0) = ''In thename''" by simp
  have c: "''In thename'' \<noteq> ''In the name''" by simp
  from nested_div_eval a b c show ?thesis by simp
qed

text \<open>
  Claim C1, amended.  With \<open>A\<close> the primary elements (\<open>div\<close> of class \<open>Ara\<close>) and \<open>T\<close>
  the translation elements (\<open>div\<close> of class \<open>Tra\<close>) of a page, extraction returns at most
  \<open>min (length A) (length T)\<close> lines.  The surviving indices are exactly the indices \<open>i\<close>
  below that minimum at which the trimmed texts of \<open>A ! i\<close> and of \<open>T ! i\<close> are both
  non-empty, and the lines are, in order, the pairs for these indices: an index that is
  dropped shifts neither stream.  The primary text of the pair for index \<open>i\<close> is the text
  nodes of \<open>A ! i\<close>, each stripped on its own, the empty ones left out, joined without a
  separator (likewise the translation from \<open>T ! i\<close>); it is the trimmed text of the
  element whenever the element holds exactly one text node.
\<close>

theorem pairing_alignment:
  "\<exists>lines title. scrape_dua (Inr soup) = Inr (lines, title) \<and>
     (let A = find_all soup ''div'' ''Ara'';
          T = find_all soup ''div'' ''Tra'';
          kept = filter (\<lambda>i. trimmed_text (A ! i) \<noteq> [] \<and> trimmed_text (T ! i) \<noteq> [])
                   [0 ..< min (length A) (length T)]
      in length lines \<le> min (length A) (length T) \<and>
         lines = map (\<lambda>i. \<lparr> arabic = get_text_strip (A ! i),
                              translation = get_text_strip (T ! i) \<rparr>) kept \<and>
         (\<forall>j < length lines.
            (length (all_strings (A ! (kept ! j))) = 1
               \<longrightarrow> arabic (lines ! j) = trimmed_text (A ! (kept ! j))) \<and>
            (length (all_strings (T ! (kept ! j))) = 1
               \<longrightarrow> translation (lines ! j) = trimmed_text (T ! (kept ! j)))))"
proof -
  let ?A = "find_all soup ''div'' ''Ara''"
  let ?T = "find_all soup ''div'' ''Tra''"
  let ?kept = "filter (\<lambda>i. trimmed_text (?A ! i) \<noteq> [] \<and> trimmed_text (?T ! i) \<noteq> [])
                 [0 ..< min (length ?A) (length ?T)]"
  let ?lines = "map (\<lambda>i. \<lparr> arabic = get_text_strip (?A ! i),
                              translation = get_text_strip (?T ! i) \<rparr>) ?kept"
  have lines: "fst (scrape_soup soup) = ?lines"
    by (simp add: scrape_soup_lines trimmed_text_Nil_iff)
  have "length ?kept \<le> length [0 ..< min (length ?A) (length ?T)]"
    by (rule length_filter_le)
  then have len: "length ?lines \<le> min (length ?A) (length ?T)" by simp
  have one: "\<forall>j < length ?lines.
            (length (all_strings (?A ! (?kept ! j))) = 1
               \<longrightarrow> arabic (?lines ! j) = trimmed_text (?A ! (?kept ! j))) \<and>
            (length (all_strings (?T ! (?kept ! j))) = 1
               \<longrightarrow> translation (?lines ! j) = trimmed_text (?T ! (?kept ! j)))"
    by (simp add: get_text_strip_one_string)
  have "scrape_dua (Inr soup) = Inr (?lines, snd (scrape_soup soup))"
    using lines by (simp add: scrape_dua_returns prod_eq_iff)
  with len one show ?thesis
    unfolding Let_def by blast
qed

theorem pairing_alignment_witness:
  "scrape_dua (Inr scenario_D) = Inr ([\<lparr> arabic = ''a0'', translation = ''t0'' \<rparr>], ''Dua Kumayl'')
   \<and> length [\<lparr> arabic = ''a0'', translation = ''t0'' \<rparr>]
       \<le> min (length (find_all scenario_D ''div'' ''Ara''))
             (length (find_all scenario_D ''div'' ''Tra''))
   \<and> (0::nat) < length [\<lparr> arabic = ''a0'', translation = ''t0'' \<rparr>]
   \<and> length (all_strings (find_all scenario_D ''div'' ''Ara'' ! 0)) = 1
   \<and> trimmed_text (find_all scenario_D ''div'' ''Ara'' ! 0) = ''a0''"
proof -
  from pairing_alignment[of scenario_D] obtain lines title
    where r: "scrape_dua (Inr scenario_D) = Inr (lines, title)"
      and b: "length lines \<le> min (length (find_all scenario_D ''div'' ''Ara''))
                                   (length (find_all scenario_D ''div'' ''Tra''))"
      and q: "\<forall>j < length lines.
                length (all_strings (find_all scenario_D ''div'' ''Ara'' ! ([0] ! j))) = 1
                \<longrightarrow> arabic (lines ! j)
                      = trimmed_text (find_all scenario_D ''div'' ''Ara'' ! ([0] ! j))"
    unfolding Let_def scenario_D_kept by blast
  from r scenario_D_eval have l: "lines = [\<lparr> arabic = ''a0'', translation = ''t0'' \<rparr>]" by simp
  from q l scenario_D_one_string
  have "trimmed_text (find_all scenario_D ''div'' ''Ara'' ! 0) = ''a0''" by simp
  with b l scenario_D_eval scenario_D_one_string show ?thesis by simp
qed

text \<open>
  Claim C2.  For every group size \<open>k \<ge> 1\<close> grouping succeeds and the groups, concatenated
  in order, are the input \<open>L\<close> again.  So are the lines read back from the slides of
  either builder, slide after slide.
\<close>

theorem pagination_round_trip:
  assumes "1 \<le> k"
  shows "(\<exists>gs. paginate L k = Inr gs \<and> concat gs = L) \<and>
         concat (map slide_lines (slides (create_pptx_three_lines ex L t bg))) = L \<and>
         concat (map slide_lines (slides (create_pptx_single_line ex L t bg))) = L"
proof -
  have a: "\<exists>gs. paginate L k = Inr gs \<and> concat gs = L"
    using assms by (rule paginate_concat)
  have b: "concat (map slide_lines (slides (create_pptx_three_lines ex L t bg))) = L"
  proof -
    obtain gs where g: "paginate L 3 = Inr gs" "concat gs = L"
      using paginate_concat[of 3 L] by auto
    from g(1) three_lines_groups[of L ex t bg]
    have "gs = map slide_lines (slides (create_pptx_three_lines ex L t bg))" by simp
    with g(2) show ?thesis by simp
  qed
  have c: "concat (map slide_lines (slides (create_pptx_single_line ex L t bg))) = L"
  proof -
    obtain gs where g: "paginate L 1 = Inr gs" "concat gs = L"
      using paginate_concat[of 1 L] by auto
    from g(1) single_line_groups[of L ex t bg]
    have "gs = map slide_lines (slides (create_pptx_single_line ex L t bg))" by simp
    with g(2) show ?thesis by simp
  qed
  from a b c show ?thesis by simp
qed

theorem pagination_round_trip_witness:
  "(1::nat) \<le> 3 \<and>
   concat [ [seven_lines ! 0, seven_lines ! 1, seven_lines ! 2],
            [seven_lines ! 3, seven_lines ! 4, seven_lines ! 5],
            [seven_lines ! 6] ] = seven_lines"
proof -
  have h: "(1::nat) \<le> 3" by simp
  from pagination_round_trip[OF h, of seven_lines] obtain gs
    where "paginate seven_lines 3 = Inr gs" and "concat gs = seven_lines" by blast
  with seven_lines_groups h show ?thesis by simp
qed

text \<open>
  Claim C3.  For every group size \<open>k \<ge> 1\<close> every group has between 1 and \<open>k\<close> lines,
  every group but the last has exactly \<open>k\<close>, and the empty input gives no group (and no
  slide in either builder) rather than an error.
\<close>

theorem group_size_bound:
  assumes "1 \<le> k"
  shows "\<exists>gs. paginate L k = Inr gs \<and>
           (\<forall>g \<in> set gs. 1 \<le> length g \<and> length g \<le> k) \<and>
           (\<forall>j. Suc j < length gs \<longrightarrow> length (gs ! j) = k) \<and>
           (L = [] \<longrightarrow> gs = []) \<and>
           slides (create_pptx_three_lines ex [] t bg) = [] \<and>
           slides (create_pptx_single_line ex [] t bg) = []"
proof -
  from paginate_sizes[OF assms, of L] obtain gs
    where p: "paginate L k = Inr gs"
      and a: "\<forall>g \<in> set gs. 1 \<le> length g \<and> length g \<le> k"
      and b: "\<forall>j. Suc j < length gs \<longrightarrow> length (gs ! j) = k"
    by blast
  have c: "L = [] \<longrightarrow> gs = []"
  proof
    assume "L = []"
    with p have "paginate [] k = Inr gs" by simp
    with paginate_empty[OF assms, where ?'a = 'a] show "gs = []" by simp
  qed
  have d: "slides (create_pptx_three_lines ex [] t bg) = []"
    by (simp add: create_pptx_three_lines_def Let_def range_step.simps)
  have e: "slides (create_pptx_single_line ex [] t bg) = []"
    by (simp add: create_pptx_single_line_def Let_def)
  from p a b c d e show ?thesis by blast
qed

theorem group_size_bound_witness:
  "(1::nat) \<le> 3 \<and>
   map length [ [seven_lines ! 0, seven_lines ! 1, seven_lines ! 2],
                [seven_lines ! 3, seven_lines ! 4, seven_lines ! 5],
                [seven_lines ! 6] ] = [3, 3, 1] \<and>
   list_all (\<lambda>g. 1 \<le> length g \<and> length g \<le> 3)
     [ [seven_lines ! 0, seven_lines ! 1, seven_lines ! 2],
       [seven_lines ! 3, seven_lines ! 4, seven_lines ! 5],
       [seven_lines ! 6] ]"
proof -
  have h: "(1::nat) \<le> 3" by simp
  from group_size_bound[OF h, of seven_lines] obtain gs
    where "paginate seven_lines 3 = Inr gs"
      and "\<forall>g \<in> set gs. 1 \<le> length g \<and> length g \<le> 3" by blast
  with seven_lines_groups h show ?thesis by (simp add: list_all_iff)
qed

text \<open>
  Claim C4.  Extraction of a parsed page returns, and every line it returns has a
  non-empty Arabic text and a non-empty translation, also after stripping whitespace.
  The builders construct no line of their own: every line shown on a slide of either
  presentation built from the extracted lines satisfies the same.
\<close>

theorem lines_non_empty:
  "\<exists>lines title. scrape_dua (Inr soup) = Inr (lines, title) \<and>
     (\<forall>l \<in> set lines. strip (arabic l) \<noteq> [] \<and> strip (translation l) \<noteq> []) \<and>
     (\<forall>s \<in> set (slides (create_pptx_single_line ex lines title bg)).
        \<forall>l \<in> set (slide_lines s). strip (arabic l) \<noteq> [] \<and> strip (translation l) \<noteq> []) \<and>
     (\<forall>s \<in> set (slides (create_pptx_three_lines ex lines title bg)).
        \<forall>l \<in> set (slide_lines s). strip (arabic l) \<noteq> [] \<and> strip (translation l) \<noteq> [])"
proof -
  let ?lines = "fst (scrape_soup soup)"
  let ?title = "snd (scrape_soup soup)"
  have r: "scrape_dua (Inr soup) = Inr (?lines, ?title)"
    by (simp add: scrape_dua_returns)
  have a: "\<forall>l \<in> set ?lines. strip (arabic l) \<noteq> [] \<and> strip (translation l) \<noteq> []"
    using scrape_soup_lines_non_empty by blast
  have b: "\<forall>s \<in> set (slides (create_pptx_single_line ex ?lines ?title bg)).
        \<forall>l \<in> set (slide_lines s). strip (arabic l) \<noteq> [] \<and> strip (translation l) \<noteq> []"
    using a slide_lines_subset_single by blast
  have c: "\<forall>s \<in> set (slides (create_pptx_three_lines ex ?lines ?title bg)).
        \<forall>l \<in> set (slide_lines s). strip (arabic l) \<noteq> [] \<and> strip (translation l) \<noteq> []"
    using a slide_lines_subset_three by blast
  from r a b c show ?thesis by blast
qed

theorem lines_non_empty_witness:
  "\<lparr> arabic = ''a0'', translation = ''t0'' \<rparr> \<in> set [\<lparr> arabic = ''a0'', translation = ''t0'' \<rparr>] \<and>
   scrape_dua (Inr scenario_D) = Inr ([\<lparr> arabic = ''a0'', translation = ''t0'' \<rparr>], ''Dua Kumayl'') \<and>
   strip ''a0'' \<noteq> [] \<and> strip ''t0'' \<noteq> []"
proof -
  from lines_non_empty[of scenario_D] obtain lines title
    where r: "scrape_dua (Inr scenario_D) = Inr (lines, title)"
      and a: "\<forall>l \<in> set lines. strip (arabic l) \<noteq> [] \<and> strip (translation l) \<noteq> []"
    by blast
  from r scenario_D_eval have "lines = [\<lparr> arabic = ''a0'', translation = ''t0'' \<rparr>]" by simp
  with a scenario_D_eval show ?thesis by simp
qed

text \<open>
  Claim C5.  In the one-line presentation slide \<open>j\<close> has exactly two text boxes, each with
  one paragraph: the first holds the Arabic text of line \<open>j\<close>, right-aligned, bold, at
  28 pt; the second holds its translation, left-aligned, not set bold, at 24 pt.  In
  the three-line presentation slide \<open>j\<close> has exactly two text boxes, and for group \<open>j\<close> of
  the lines the first box holds one paragraph per line of the group, in order, with the
  Arabic text, right-aligned, bold, at 22 pt, and the second one paragraph per line with
  the translation, left-aligned, not set bold, at 18 pt.  The four sizes are ordered
  28 pt > 24 pt > 22 pt > 18 pt (tiers 1 to 4).
\<close>

theorem layout_pairing:
  "length (slides (create_pptx_single_line ex L t bg)) = length L \<and>
   (\<forall>j < length L. \<exists>a e.
      text_boxes (slides (create_pptx_single_line ex L t bg) ! j) = [a, e] \<and>
      map p_text (paragraphs a) = [arabic (L ! j)] \<and>
      map p_alignment (paragraphs a) = [Some RIGHT] \<and>
      map font_bold (paragraphs a) = [Some True] \<and>
      map font_size (paragraphs a) = [Some (Pt 28)] \<and>
      map p_text (paragraphs e) = [translation (L ! j)] \<and>
      map p_alignment (paragraphs e) = [Some LEFT] \<and>
      map font_bold (paragraphs e) = [None] \<and>
      map font_size (paragraphs e) = [Some (Pt 24)]) \<and>
   (\<exists>gs. paginate L 3 = Inr gs \<and>
      length (slides (create_pptx_three_lines ex L t bg)) = length gs \<and>
      (\<forall>j < length gs. \<exists>a e.
         text_boxes (slides (create_pptx_three_lines ex L t bg) ! j) = [a, e] \<and>
         map p_text (paragraphs a) = map arabic (gs ! j) \<and>
         map p_alignment (paragraphs a) = replicate (length (gs ! j)) (Some RIGHT) \<and>
         map font_bold (paragraphs a) = replicate (length (gs ! j)) (Some True) \<and>
         map font_size (paragraphs a) = replicate (length (gs ! j)) (Some (Pt 22)) \<and>
         map p_text (paragraphs e) = map translation (gs ! j) \<and>
         map p_alignment (paragraphs e) = replicate (length (gs ! j)) (Some LEFT) \<and>
         map font_bold (paragraphs e) = replicate (length (gs ! j)) None \<and>
         map font_size (paragraphs e) = replicate (length (gs ! j)) (Some (Pt 18)))) \<and>
   Pt 18 < Pt 22 \<and> Pt 22 < Pt 24 \<and> Pt 24 < Pt 28"
proof -
  let ?w = "Inches_tenths 100" and ?h = "Inches_tenths 75"
  let ?rs = "range_step 0 (length L) 3"
  let ?gs = "map (\<lambda>i. slice L i (i + 3)) ?rs"
  have s1: "slides (create_pptx_single_line ex L t bg) = map (single_line_slide ex bg ?w ?h) L"
    by (simp add: create_pptx_single_line_def Let_def)
  have s3: "slides (create_pptx_three_lines ex L t bg) = map (three_lines_slide ex bg ?w ?h L) ?rs"
    by (simp add: create_pptx_three_lines_def Let_def)
  have a: "length (slides (create_pptx_single_line ex L t bg)) = length L"
    by (simp add: s1)
  have b: "\<forall>j < length L. \<exists>a e.
      text_boxes (slides (create_pptx_single_line ex L t bg) ! j) = [a, e] \<and>
      map p_text (paragraphs a) = [arabic (L ! j)] \<and>
      map p_alignment (paragraphs a) = [Some RIGHT] \<and>
      map font_bold (paragraphs a) = [Some True] \<and>
      map font_size (paragraphs a) = [Some (Pt 28)] \<and>
      map p_text (paragraphs e) = [translation (L ! j)] \<and>
      map p_alignment (paragraphs e) = [Some LEFT] \<and>
      map font_bold (paragraphs e) = [None] \<and>
      map font_size (paragraphs e) = [Some (Pt 24)]"
  proof (intro allI impI)
    fix j assume "j < length L"
    then have "slides (create_pptx_single_line ex L t bg) ! j
               = single_line_slide ex bg ?w ?h (L ! j)"
      by (simp add: s1)
    then show "\<exists>a e.
      text_boxes (slides (create_pptx_single_line ex L t bg) ! j) = [a, e] \<and>
      map p_text (paragraphs a) = [arabic (L ! j)] \<and>
      map p_alignment (paragraphs a) = [Some RIGHT] \<and>
      map font_bold (paragraphs a) = [Some True] \<and>
      map font_size (paragraphs a) = [Some (Pt 28)] \<and>
      map p_text (paragraphs e) = [translation (L ! j)] \<and>
      map p_alignment (paragraphs e) = [Some LEFT] \<and>
      map font_bold (paragraphs e) = [None] \<and>
      map font_size (paragraphs e) = [Some (Pt 24)]"
      using single_slide_layout[of ex bg ?w ?h "L ! j"] by simp
  qed
  have p: "paginate L 3 = Inr ?gs" by (simp add: paginate_def)
  have l: "length (slides (create_pptx_three_lines ex L t bg)) = length ?gs"
    by (simp add: s3)
  have c: "\<forall>j < length ?gs. \<exists>a e.
         text_boxes (slides (create_pptx_three_lines ex L t bg) ! j) = [a, e] \<and>
         map p_text (paragraphs a) = map arabic (?gs ! j) \<and>
         map p_alignment (paragraphs a) = replicate (length (?gs ! j)) (Some RIGHT) \<and>
         map font_bold (paragraphs a) = replicate (length (?gs ! j)) (Some True) \<and>
         map font_size (paragraphs a) = replicate (length (?gs ! j)) (Some (Pt 22)) \<and>
         map p_text (paragraphs e) = map translation (?gs ! j) \<and>
         map p_alignment (paragraphs e) = replicate (length (?gs ! j)) (Some LEFT) \<and>
         map font_bold (paragraphs e) = replicate (length (?gs ! j)) None \<and>
         map font_size (paragraphs e) = replicate (length (?gs ! j)) (Some (Pt 18))"
  proof (intro allI impI)
    fix j assume "j < length ?gs"
    then have j: "j < length ?rs" by simp
    then have "?rs ! j \<in> set ?rs" by (rule nth_mem)
    then have i: "?rs ! j < length L" by (rule range_step_bound)
    from j have e1: "slides (create_pptx_three_lines ex L t bg) ! j
                     = three_lines_slide ex bg ?w ?h L (?rs ! j)"
      by (simp add: s3)
    from j have e2: "?gs ! j = slice L (?rs ! j) (?rs ! j + 3)" by simp
    show "\<exists>a e.
         text_boxes (slides (create_pptx_three_lines ex L t bg) ! j) = [a, e] \<and>
         map p_text (paragraphs a) = map arabic (?gs ! j) \<and>
         map p_alignment (paragraphs a) = replicate (length (?gs ! j)) (Some RIGHT) \<and>
         map font_bold (paragraphs a) = replicate (length (?gs ! j)) (Some True) \<and>
         map font_size (paragraphs a) = replicate (length (?gs ! j)) (Some (Pt 22)) \<and>
         map p_text (paragraphs e) = map translation (?gs ! j) \<and>
         map p_alignment (paragraphs e) = replicate (length (?gs ! j)) (Some LEFT) \<and>
         map font_bold (paragraphs e) = replicate (length (?gs ! j)) None \<and>
         map font_size (paragraphs e) = replicate (length (?gs ! j)) (Some (Pt 18))"
      unfolding e1 e2 by (rule three_slide_layout[OF i])
  qed
  have d: "Pt 18 < Pt 22 \<and> Pt 22 < Pt 24 \<and> Pt 24 < Pt 28" by (simp add: Pt_def)
  from p l c have "\<exists>gs. paginate L 3 = Inr gs \<and>
      length (slides (create_pptx_three_lines ex L t bg)) = length gs \<and>
      (\<forall>j < length gs. \<exists>a e.
         text_boxes (slides (create_pptx_three_lines ex L t bg) ! j) = [a, e] \<and>
         map p_text (paragraphs a) = map arabic (gs ! j) \<and>
         map p_alignment (paragraphs a) = replicate (length (gs ! j)) (Some RIGHT) \<and>
         map font_bold (paragraphs a) = replicate (length (gs ! j)) (Some True) \<and>
         map font_size (paragraphs a) = replicate (length (gs ! j)) (Some (Pt 22)) \<and>
         map p_text (paragraphs e) = map translation (gs ! j) \<and>
         map p_alignment (paragraphs e) = replicate (length (gs ! j)) (Some LEFT) \<and>
         map font_bold (paragraphs e) = replicate (length (gs ! j)) None \<and>
         map font_size (paragraphs e) = replicate (length (gs ! j)) (Some (Pt 18)))"
    by (intro exI[of _ ?gs] conjI)
  with a b d show ?thesis by (intro conjI) simp_all
qed

theorem layout_pairing_witness:
  "(0::nat) < length seven_lines \<and>
   seven_lines ! 0 = \<lparr> arabic = ''a1'', translation = ''t1'' \<rparr> \<and>
   (\<exists>a e. text_boxes (slides (create_pptx_single_line (\<lambda>p. True) seven_lines ''Dua''
                                (Some ''bg.jpg'')) ! 0) = [a, e] \<and>
      map p_text (paragraphs a) = [arabic (seven_lines ! 0)] \<and>
      map p_alignment (paragraphs a) = [Some RIGHT] \<and>
      map font_bold (paragraphs a) = [Some True] \<and>
      map font_size (paragraphs a) = [Some (Pt 28)] \<and>
      map p_text (paragraphs e) = [translation (seven_lines ! 0)] \<and>
      map p_alignment (paragraphs e) = [Some LEFT] \<and>
      map font_bold (paragraphs e) = [None] \<and>
      map font_size (paragraphs e) = [Some (Pt 24)])"
proof -
  have h: "(0::nat) < length seven_lines" by (simp add: seven_lines_def)
  have l0: "seven_lines ! 0 = \<lparr> arabic = ''a1'', translation = ''t1'' \<rparr>"
    by (simp add: seven_lines_def)
  note inst = conjunct1[OF conjunct2[OF layout_pairing[of "\<lambda>p. True" seven_lines "''Dua''"
          "Some ''bg.jpg''"]], rule_format, OF h]
  from h l0 inst show ?thesis by (intro conjI)
qed

text \<open>
  Claim C6.  The text boxes of every slide are the same for any two background paths and
  any two states of the file system.  The slides built with a background path are the
  slides built without one, each preceded by one picture that carries the given path
  unchanged when the path is non-empty and names an existing file, and by nothing
  otherwise.
\<close>

theorem background_pass_through:
  "map text_boxes (slides (create_pptx_single_line ex L t bg))
     = map text_boxes (slides (create_pptx_single_line ex' L t bg')) \<and>
   map text_boxes (slides (create_pptx_three_lines ex L t bg))
     = map text_boxes (slides (create_pptx_three_lines ex' L t bg')) \<and>
   slides (create_pptx_single_line ex L t bg)
     = map (\<lambda>s. (case bg of
                   None \<Rightarrow> []
                 | Some path \<Rightarrow>
                     if path \<noteq> [] \<and> ex path
                     then [Picture path 0 0 (Inches_tenths 100) (Inches_tenths 75)]
                     else []) @ s)
         (slides (create_pptx_single_line ex' L t None)) \<and>
   slides (create_pptx_three_lines ex L t bg)
     = map (\<lambda>s. (case bg of
                   None \<Rightarrow> []
                 | Some path \<Rightarrow>
                     if path \<noteq> [] \<and> ex path
                     then [Picture path 0 0 (Inches_tenths 100) (Inches_tenths 75)]
                     else []) @ s)
         (slides (create_pptx_three_lines ex' L t None))"
proof -
  have a: "map text_boxes (slides (create_pptx_single_line ex L t bg))
     = map text_boxes (slides (create_pptx_single_line ex' L t bg'))"
    by (simp add: create_pptx_single_line_def Let_def single_line_slide_def)
  have b: "map text_boxes (slides (create_pptx_three_lines ex L t bg))
     = map text_boxes (slides (create_pptx_three_lines ex' L t bg'))"
    by (simp add: create_pptx_three_lines_def Let_def three_lines_slide_def)
  have c: "slides (create_pptx_single_line ex L t bg)
     = map (\<lambda>s. (case bg of
                   None \<Rightarrow> []
                 | Some path \<Rightarrow>
                     if path \<noteq> [] \<and> ex path
                     then [Picture path 0 0 (Inches_tenths 100) (Inches_tenths 75)]
                     else []) @ s)
         (slides (create_pptx_single_line ex' L t None))"
    by (simp add: create_pptx_single_line_def Let_def single_line_slide_def
        add_background_def truthy_def comp_def split: option.splits)
  have d: "slides (create_pptx_three_lines ex L t bg)
     = map (\<lambda>s. (case bg of
                   None \<Rightarrow> []
                 | Some path \<Rightarrow>
                     if path \<noteq> [] \<and> ex path
                     then [Picture path 0 0 (Inches_tenths 100) (Inches_tenths 75)]
                     else []) @ s)
         (slides (create_pptx_three_lines ex' L t None))"
    by (simp add: create_pptx_three_lines_def Let_def three_lines_slide_def
        add_background_def truthy_def comp_def split: option.splits)
  from a b c d show ?thesis by (intro conjI)
qed

theorem background_pass_through_witness:
  "slides (create_pptx_single_line (\<lambda>p. True) [\<lparr> arabic = ''a0'', translation = ''t0'' \<rparr>]
             ''Dua'' (Some ''temp_bg_1.jpg''))
   = map (\<lambda>s. Picture ''temp_bg_1.jpg'' 0 0 (Inches_tenths 100) (Inches_tenths 75) # s)
       (slides (create_pptx_single_line (\<lambda>p. False) [\<lparr> arabic = ''a0'', translation = ''t0'' \<rparr>]
                  ''Dua'' None))"
  using background_pass_through[of "\<lambda>p. True" "[\<lparr> arabic = ''a0'', translation = ''t0'' \<rparr>]"
      "''Dua''" "Some ''temp_bg_1.jpg''" "\<lambda>p. False" None]
  by simp

text \<open>
  Claim C7 as the specification words it says that the title is the trimmed text of the
  title element.  For the title element \<open><ptitle> Dua <b> Kumayl </b></ptitle>\<close> the
  title returned is \<open>DuaKumayl\<close>, while the trimmed text of the element is
  \<open>Dua  Kumayl\<close>.
\<close>

theorem title_extraction_counterexample:
  "find_tag nested_title_page ''ptitle''
     = Some (Tag ''ptitle'' [] [NavigableString '' Dua '', Tag ''b'' [] [NavigableString '' Kumayl '']]) \<and>
   trimmed_text (Tag ''ptitle'' []
      [NavigableString '' Dua '', Tag ''b'' [] [NavigableString '' Kumayl '']]) = ''Dua  Kumayl'' \<and>
   scrape_dua (Inr nested_title_page)
     = Inr ([\<lparr> arabic = ''a0'', translation = ''t0'' \<rparr>], ''DuaKumayl'') \<and>
   snd (scrape_soup nested_title_page)
     \<noteq> trimmed_text (Tag ''ptitle'' []
          [NavigableString '' Dua '', Tag ''b'' [] [NavigableString '' Kumayl '']])"
proof -
  have "scrape_soup nested_title_page
          = ([\<lparr> arabic = ''a0'', translation = ''t0'' \<rparr>], ''DuaKumayl'')"
    using nested_title_eval by (simp add: scrape_dua_def)
  then have a: "snd (scrape_soup nested_title_page) = ''DuaKumayl''" by simp
  have b: "''DuaKumayl'' \<noteq> ''Dua  Kumayl''" by simp
  from nested_title_element nested_title_trimmed nested_title_eval a b show ?thesis
    by (simp only: simp_thms)
qed

text \<open>
  Claim C7, amended.  Extraction of a parsed page returns.  When the page has no
  \<open>ptitle\<close> element the title is the placeholder \<open>Dua\<close>.  Otherwise only the first
  \<open>ptitle\<close> element counts, and the title is its text nodes, each stripped on its own, the
  empty ones left out, joined without a separator; it has no whitespace at its ends, and
  it is the trimmed text of the element whenever the element holds exactly one text node.
\<close>

theorem title_extraction:
  "\<exists>lines title. scrape_dua (Inr soup) = Inr (lines, title) \<and>
     (case filter (\<lambda>e. tag_name e = Some ''ptitle'') (descendants soup) of
        [] \<Rightarrow> title = ''Dua''
      | e # _ \<Rightarrow> title = get_text_strip e \<and> strip title = title \<and>
                 (length (all_strings e) = 1 \<longrightarrow> title = trimmed_text e))"
proof -
  have "scrape_dua (Inr soup) = Inr (fst (scrape_soup soup), snd (scrape_soup soup))"
    by (simp add: scrape_dua_returns)
  moreover have
    "case filter (\<lambda>e. tag_name e = Some ''ptitle'') (descendants soup) of
        [] \<Rightarrow> snd (scrape_soup soup) = ''Dua''
      | e # _ \<Rightarrow> snd (scrape_soup soup) = get_text_strip e
                 \<and> strip (snd (scrape_soup soup)) = snd (scrape_soup soup)
                 \<and> (length (all_strings e) = 1 \<longrightarrow> snd (scrape_soup soup) = trimmed_text e)"
    by (simp add: scrape_soup_title find_tag_def strip_get_text_strip
        get_text_strip_one_string split: list.splits)
  ultimately show ?thesis by blast
qed

theorem title_extraction_witness:
  "scrape_dua (Inr scenario_D)
     = Inr ([\<lparr> arabic = ''a0'', translation = ''t0'' \<rparr>], ''Dua Kumayl'') \<and>
   length (all_strings (Tag ''ptitle'' [] [NavigableString '' Dua Kumayl ''])) = 1 \<and>
   trimmed_text (Tag ''ptitle'' [] [NavigableString '' Dua Kumayl '']) = ''Dua Kumayl'' \<and>
   strip ''Dua Kumayl'' = ''Dua Kumayl''"
proof -
  from title_extraction[of scenario_D] obtain lines title
    where r: "scrape_dua (Inr scenario_D) = Inr (lines, title)"
      and t: "strip title = title"
             "length (all_strings (Tag ''ptitle'' [] [NavigableString '' Dua Kumayl ''])) = 1
              \<longrightarrow> title = trimmed_text (Tag ''ptitle'' [] [NavigableString '' Dua Kumayl ''])"
    unfolding scenario_D_title_element by auto
  from r scenario_D_eval have e: "title = ''Dua Kumayl''" by simp
  from t(2) scenario_D_title_one_string e
  have "trimmed_text (Tag ''ptitle'' [] [NavigableString '' Dua Kumayl '']) = ''Dua Kumayl''"
    by simp
  with t(1) e scenario_D_eval scenario_D_title_one_string show ?thesis by simp
qed

text \<open>
  Claim C8.  The file name of the one-line presentation is the title with every space
  replaced by an underscore, followed by \<open>_single_line\<close> and the extension \<open>.pptx\<close>; that
  of the three-line presentation has \<open>_three_lines\<close> instead.
\<close>

theorem artifact_file_names:
  "single_line_filename title
     = map (\<lambda>c. if c = CHR '' '' then CHR ''_'' else c) title @ ''_single_line'' @ ''.pptx''
   \<and> three_lines_filename title
     = map (\<lambda>c. if c = CHR '' '' then CHR ''_'' else c) title @ ''_three_lines'' @ ''.pptx''"
  by (simp add: single_line_filename_def three_lines_filename_def replace_char)

theorem artifact_file_names_witness:
  "single_line_filename ''Dua Kumayl'' = ''Dua_Kumayl_single_line.pptx'' \<and>
   three_lines_filename ''Dua Kumayl'' = ''Dua_Kumayl_three_lines.pptx''"
proof -
  have "map (\<lambda>c. if c = CHR '' '' then CHR ''_'' else c) ''Dua Kumayl'' = ''Dua_Kumayl''"
    by simp
  with artifact_file_names[of "''Dua Kumayl''"] show ?thesis by simp
qed

text \<open>
  Claim C9.  When the page has a \<open>ptitle\<close> element and the text nodes of the first one
  hold nothing but whitespace, the title returned is the empty string, not the
  placeholder \<open>Dua\<close>.
\<close>

theorem blank_title_is_empty:
  assumes "find_tag soup ''ptitle'' = Some e"
    and "\<forall>s \<in> set (all_strings e). \<forall>c \<in> set s. isspace c"
  shows "\<exists>lines title. scrape_dua (Inr soup) = Inr (lines, title) \<and> title = [] \<and> title \<noteq> ''Dua''"
proof -
  from assms(2) have "get_text_strip e = []" by (simp add: get_text_strip_Nil_iff)
  with assms(1) have "snd (scrape_soup soup) = []" by (simp add: scrape_soup_title)
  moreover have "scrape_dua (Inr soup) = Inr (fst (scrape_soup soup), snd (scrape_soup soup))"
    by (simp add: scrape_dua_returns)
  ultimately show ?thesis by auto
qed

theorem blank_title_is_empty_witness:
  "find_tag blank_title_page ''ptitle'' = Some (Tag ''ptitle'' [] [NavigableString ''  '']) \<and>
   list_all (list_all isspace) (all_strings (Tag ''ptitle'' [] [NavigableString ''  ''])) \<and>
   scrape_dua (Inr blank_title_page) = Inr ([\<lparr> arabic = ''a0'', translation = ''t0'' \<rparr>], [])"
proof -
  from blank_title_is_empty[OF blank_title_found blank_title_spaces] obtain lines title
    where "scrape_dua (Inr blank_title_page) = Inr (lines, title)" and "title = []" by blast
  with blank_eval blank_title_found blank_title_spaces show ?thesis
    by (simp add: list_all_iff)
qed

text \<open>
  Claim C10.  Both builders return the same presentation for any two titles, given the
  same lines, background path and file system.
\<close>

theorem slides_independent_of_title:
  "create_pptx_single_line ex L t1 bg = create_pptx_single_line ex L t2 bg \<and>
   create_pptx_three_lines ex L t1 bg = create_pptx_three_lines ex L t2 bg"
  by (simp add: create_pptx_single_line_def create_pptx_three_lines_def)

end
